theory Spec2Isabelle
  imports Main "HOL-Library.Multiset" "HOL-Library.Char_ord" "HOL-Library.List_Lexorder"
    "HOL-Library.AList" "HOL-Library.Sublist"
begin

section \<open>Strings and file names\<close>

text \<open>
  File names, tokens and extensions are \<open>std::string\<close>s: lists of bytes. The program
  never calls \<open>setlocale\<close>, so \<open>std::tolower\<close> and \<open>isalnum\<close> act as in the "C"
  locale: only the 26 ASCII letters have a case, and the alphanumeric bytes are the
  ASCII digits and letters.
\<close>

definition tolower :: "char \<Rightarrow> char" where
  "tolower c =
     (let n = (of_char c :: nat) in if 65 \<le> n \<and> n \<le> 90 then char_of (n + 32) else c)"

definition isalnum :: "char \<Rightarrow> bool" where
  "isalnum c =
     (let n = (of_char c :: nat)
      in (48 \<le> n \<and> n \<le> 57) \<or> (65 \<le> n \<and> n \<le> 90) \<or> (97 \<le> n \<and> n \<le> 122))"

text \<open>The lambda \<open>toLower\<close> of cleanByName.cpp; cleanByType.cpp inlines the same transform.\<close>

definition toLower :: "string \<Rightarrow> string" where
  "toLower s = map tolower s"

text \<open>\<open>hay.find(needle) != string::npos\<close>: the needle occurs at some position.\<close>

fun contains :: "string \<Rightarrow> string \<Rightarrow> bool" where
  "contains [] needle = (needle = [])"
| "contains (c # s) needle = (take (length needle) (c # s) = needle \<or> contains s needle)"

text \<open>
  \<open>std::filesystem::path::extension\<close> and \<open>stem\<close> of a file name, as the C++ standard
  describes them: the extension starts at the rightmost period, a period that is the
  first character of the name starts no extension, and the names dot and dot-dot
  have none.
\<close>

fun rfind :: "char \<Rightarrow> string \<Rightarrow> nat option" where
  "rfind c [] = None"
| "rfind c (x # xs) =
     (case rfind c xs of
        Some i \<Rightarrow> Some (Suc i)
      | None \<Rightarrow> if x = c then Some 0 else None)"

definition extension :: "string \<Rightarrow> string" where
  "extension f =
     (if f = ''.'' \<or> f = ''..'' then []
      else case rfind (CHR ''.'') f of
             None \<Rightarrow> []
           | Some 0 \<Rightarrow> []
           | Some (Suc p) \<Rightarrow> drop (Suc p) f)"

definition stem :: "string \<Rightarrow> string" where
  "stem f =
     (if f = ''.'' \<or> f = ''..'' then f
      else case rfind (CHR ''.'') f of
             None \<Rightarrow> f
           | Some 0 \<Rightarrow> f
           | Some (Suc p) \<Rightarrow> take (Suc p) f)"

section \<open>Token counting (cleanFilesByName, auto-detect branch)\<close>

text \<open>
  \<open>tokenCount\<close> is a \<open>std::map<string, int>\<close>: an association list kept in ascending
  key order, which is the order its iteration yields. \<open>increment t m\<close> is
  \<open>m[t]++\<close>. Counts are naturals: an \<open>int\<close> would need more than \<open>2^31 - 1\<close>
  increments of one token to overflow.
\<close>

type_synonym tokenmap = "(string \<times> nat) list"

fun increment :: "string \<Rightarrow> tokenmap \<Rightarrow> tokenmap" where
  "increment t [] = [(t, 1)]"
| "increment t ((k, c) # m) =
     (if t = k then (k, c + 1) # m
      else if t < k then (t, 1) # (k, c) # m
      else (k, c) # increment t m)"

text \<open>
  The loop \<open>for (char ch : lower)\<close> (lines 169-182), with the loop variables \<open>token\<close>
  and \<open>tokenCount\<close> as arguments. As in the source, \<open>token.clear()\<close> sits inside the
  test on length and ignore set: a run that is too short or ignored stays in the
  accumulator.
\<close>

fun scan :: "string list \<Rightarrow> string \<Rightarrow> string \<Rightarrow> tokenmap \<Rightarrow> string \<times> tokenmap" where
  "scan ignoreSet [] token tokenCount = (token, tokenCount)"
| "scan ignoreSet (ch # rest) token tokenCount =
     (if isalnum ch then scan ignoreSet rest (token @ [ch]) tokenCount
      else if 4 \<le> length token \<and> token \<notin> set ignoreSet
           then scan ignoreSet rest [] (increment token tokenCount)
           else scan ignoreSet rest token tokenCount)"

text \<open>The body of the first directory loop for one regular file (lines 164-191).\<close>

definition countStem :: "string list \<Rightarrow> string \<Rightarrow> tokenmap \<Rightarrow> tokenmap" where
  "countStem ignoreSet fname tokenCount =
     (let lower = toLower (stem fname);
          (token, tc1) = scan ignoreSet lower [] tokenCount;
          tc2 = (if 4 \<le> length token \<and> token \<notin> set ignoreSet
                 then increment token tc1 else tc1)
      in if 4 \<le> length lower \<and> lower \<notin> set ignoreSet then increment lower tc2 else tc2)"

section \<open>The directory tree and the two mutating calls\<close>

text \<open>
  The tree below \<open>directoryPath\<close>: an association list from paths (lists of components,
  relative to \<open>directoryPath\<close>, which is the empty path) to what is found there. The
  order of the list is the order in which \<open>fs::directory_iterator\<close> yields the direct
  children. An entry is a regular file, a folder that can be read and searched
  (\<open>directory\<close>), a folder that can be read but not searched (\<open>locked\<close>), a symbolic
  link with its target (a path of the tree), or something else. A regular file carries an identifier of its
  content, so that a file that was replaced can be told from the one that was there
  before.

  Folder names (a category, a token, the name the user typed) are single components of
  a path; the special names dot and dot-dot are outside the model.

  The functions of this section and of the next two are the program on a plain tree,
  one without symbolic links and locked folders: there \<open>fs::exists\<close> is the presence
  of an entry, \<open>is_regular_file\<close> and the iteration read the entries, and no status
  query fails. The section on symbolic links and locked folders gives the functions
  for every tree (primed names), where links are followed and a failing status query
  throws. The two mutating calls, \<open>fs::create_directory\<close> and \<open>fs::rename\<close>,
  are called by the program with an \<open>error_code\<close> argument; each may also fail for a
  reason outside the tree (permissions, a full disk, another device): \<open>faults\<close> lists,
  call by call, whether the next mutating call fails that way.
\<close>

type_synonym path = "string list"

datatype file_type = regular nat | directory | locked | symlink path | other

type_synonym filesystem = "(path \<times> file_type) list"

definition fs_exists :: "filesystem \<Rightarrow> path \<Rightarrow> bool" where
  "fs_exists fs p = (map_of fs p \<noteq> None)"

definition is_regular_file :: "filesystem \<Rightarrow> path \<Rightarrow> bool" where
  "is_regular_file fs p = (case map_of fs p of Some (regular c) \<Rightarrow> True | _ \<Rightarrow> False)"

definition is_directory :: "filesystem \<Rightarrow> path \<Rightarrow> bool" where
  "is_directory fs p = (map_of fs p = Some directory)"

definition directory_iterator :: "filesystem \<Rightarrow> string list" where
  "directory_iterator fs = concat (map (\<lambda>(p, t). case p of [f] \<Rightarrow> [f] | _ \<Rightarrow> []) fs)"

text \<open>What the functions print, on \<open>std::cout\<close> and \<open>std::cerr\<close>, as far as it tells cases apart.\<close>

datatype message =
    InvalidDirectory
  | SkippedDangerous string
  | CouldNotCreate path
  | FailedToMove path path
  | NoFilesFound string
  | FailedToCreate path
  | SkippingNonRegular string
  | NoCommonTokens
  | SkippingConflict string
  | SkippingError string
  | Report nat nat "string list"

text \<open>
  The state of one run: the tree, the pending faults, and the locals \<open>moved\<close>,
  \<open>skipped\<close> and \<open>skippedFiles\<close> of the two functions (\<open>size_t\<close> counters, which a
  directory cannot overflow), with the console output.
\<close>

record run =
  disk :: filesystem
  faults :: "bool list"
  moved :: nat
  skipped :: nat
  skippedFiles :: "string list"
  console :: "message list"

definition start :: "filesystem \<Rightarrow> bool list \<Rightarrow> run" where
  "start fs fl =
     \<lparr>disk = fs, faults = fl, moved = 0, skipped = 0, skippedFiles = [], console = []\<rparr>"

definition fault :: "run \<Rightarrow> bool" where
  "fault s = (case faults s of [] \<Rightarrow> False | b # _ \<Rightarrow> b)"

definition tick :: "run \<Rightarrow> run" where
  "tick s = s\<lparr>faults := tl (faults s)\<rparr>"

datatype mkdir_result = Created | AlreadyThere | Failed

text \<open>
  \<open>fs::create_directory(p, ec)\<close>: \<open>Created\<close> when it returns true, \<open>AlreadyThere\<close> when it
  returns false with \<open>ec\<close> clear (the directory exists), \<open>Failed\<close> when \<open>ec\<close> is set.
\<close>

definition create_directory :: "path \<Rightarrow> run \<Rightarrow> mkdir_result \<times> run" where
  "create_directory p s =
     (if fault s then (Failed, tick s)
      else if is_directory (disk s) p then (AlreadyThere, tick s)
      else if fs_exists (disk s) p \<or> \<not> is_directory (disk s) (butlast p) then (Failed, tick s)
      else (Created, (tick s)\<lparr>disk := disk s @ [(p, directory)]\<rparr>))"

text \<open>
  \<open>fs::rename(src, dest, ec)\<close>; the result is whether \<open>ec\<close> is set. As POSIX \<open>rename\<close>
  does, it replaces a file that is at \<open>dest\<close>. The program renames regular files only;
  renaming a directory is outside the model and left as a failure.
\<close>

definition rename :: "path \<Rightarrow> path \<Rightarrow> run \<Rightarrow> bool \<times> run" where
  "rename src dest s =
     (if fault s then (True, tick s)
      else case map_of (disk s) src of
             None \<Rightarrow> (True, tick s)
           | Some t \<Rightarrow>
               if t = directory \<or> \<not> is_directory (disk s) (butlast dest)
                  \<or> is_directory (disk s) dest
               then (True, tick s)
               else if src = dest then (False, tick s)
               else (False, (tick s)\<lparr>disk :=
                      AList.delete src (AList.delete dest (disk s)) @ [(dest, t)]\<rparr>))"

section \<open>cleanFilesByType\<close>

text \<open>
  \<open>getFileTypes()\<close> and \<open>getDangerousExts()\<close> read configuration files and fall back to
  built-in tables; they are arguments here. \<open>fileTypes\<close> is the \<open>std::map\<close> from a
  category to its extensions, in the order of its iteration. The loop of lines 66-76
  builds \<open>extToType\<close>; a later category overwrites an earlier one.
\<close>

definition buildExtToType :: "(string \<times> string list) list \<Rightarrow> (string \<rightharpoonup> string)" where
  "buildExtToType fileTypes =
     fold (\<lambda>(type, exts) m. fold (\<lambda>e m. m(toLower e \<mapsto> type)) exts m) fileTypes Map.empty"

text \<open>The built-in list of dangerousExts.hpp.\<close>

definition DEFAULT_DANGEROUS_EXTS :: "string list" where
  "DEFAULT_DANGEROUS_EXTS =
     [''.exe'', ''.dll'', ''.com'', ''.msi'', ''.bin'', ''.sys'',
      ''.bat'', ''.cmd'', ''.vbs'', ''.js'', ''.jse'', ''.wsf'', ''.wsh'',
      ''.ps1'', ''.psm1'', ''.sh'', ''.bash'', ''.zsh'',
      ''.lnk'', ''.inf'', ''.msu'', ''.msp'',
      ''.docm'', ''.xlsm'', ''.pptm'',
      ''.scr'', ''.pif'', ''.jar'', ''.reg'']"

text \<open>Lines 101-104: the type of an extension, \<open>Other\<close> when the table has none.\<close>

definition lookupType :: "(string \<rightharpoonup> string) \<Rightarrow> string \<Rightarrow> string" where
  "lookupType extToType lowerExt =
     (case extToType lowerExt of Some t \<Rightarrow> t | None \<Rightarrow> ''Other'')"

text \<open>
  Lines 106-146, the second half of the loop body: the file named \<open>fname\<close> goes to
  the folder \<open>type\<close>, which is created when nothing of that name exists.
\<close>

definition relocate :: "string \<Rightarrow> string \<Rightarrow> run \<Rightarrow> run" where
  "relocate type fname s =
     (let destDir = [type];
          dest = [type, fname];
          (made, s1) = (if fs_exists (disk s) destDir then (Created, s)
                        else create_directory destDir s)
      in if made \<noteq> Created
         then s1\<lparr>skipped := skipped s1 + 1, skippedFiles := skippedFiles s1 @ [fname],
                 console := console s1 @ [CouldNotCreate destDir]\<rparr>
         else if fs_exists (disk s1) dest
         then s1\<lparr>skipped := skipped s1 + 1, skippedFiles := skippedFiles s1 @ [fname]\<rparr>
         else
           let (ec, s2) = rename [fname] dest s1
           in if ec
              then s2\<lparr>skipped := skipped s2 + 1, skippedFiles := skippedFiles s2 @ [fname],
                      console := console s2 @ [FailedToMove [fname] dest]\<rparr>
              else s2\<lparr>moved := moved s2 + 1\<rparr>)"

text \<open>
  The body of the loop over the directory entries (lines 81-146) for the entry named
  \<open>fname\<close>. The loop runs over the entries the directory had when it started: the
  body creates only directories and removes only the entry it is at, so an iterator
  that sees those changes meets the same regular files.
\<close>

definition typeStep :: "string list \<Rightarrow> (string \<rightharpoonup> string) \<Rightarrow> string \<Rightarrow> run \<Rightarrow> run" where
  "typeStep dangerous extToType fname s =
     (if \<not> is_regular_file (disk s) [fname] then s
      else
        let lowerExt = toLower (extension fname) in
        if lowerExt \<in> set dangerous
        then s\<lparr>skipped := skipped s + 1, skippedFiles := skippedFiles s @ [fname],
               console := console s @ [SkippedDangerous fname]\<rparr>
        else relocate (lookupType extToType lowerExt) fname s)"

definition report :: "run \<Rightarrow> run" where
  "report s = s\<lparr>console := console s @ [Report (moved s) (skipped s) (skippedFiles s)]\<rparr>"

definition cleanFilesByType ::
  "string list \<Rightarrow> (string \<times> string list) list \<Rightarrow> filesystem \<Rightarrow> bool list \<Rightarrow> run" where
  "cleanFilesByType dangerous fileTypes fs fl =
     (let s = start fs fl
      in if \<not> fs_exists fs [] \<or> \<not> is_directory fs []
         then s\<lparr>console := [InvalidDirectory]\<rparr>
         else report (fold (typeStep dangerous (buildExtToType fileTypes))
                        (directory_iterator fs) s))"

section \<open>cleanFilesByName\<close>

text \<open>The loop body of lines 126-146: one matched file of the explicit-name branch.\<close>

definition moveMatch :: "path \<Rightarrow> string \<Rightarrow> run \<Rightarrow> run" where
  "moveMatch destDir fname s =
     (let dest = destDir @ [fname]
      in if fs_exists (disk s) dest
         then s\<lparr>skipped := skipped s + 1, skippedFiles := skippedFiles s @ [fname]\<rparr>
         else
           let (moveEc, s1) = rename [fname] dest s
           in if moveEc
              then s1\<lparr>skipped := skipped s1 + 1, skippedFiles := skippedFiles s1 @ [fname]\<rparr>
              else s1\<lparr>moved := moved s1 + 1\<rparr>)"

text \<open>Branch 1 (lines 87-147): the user typed a name. Two early returns print no summary.\<close>

definition explicitSearch :: "string \<Rightarrow> run \<Rightarrow> run" where
  "explicitSearch name s =
     (let needle = toLower name;
          matches = filter (\<lambda>fname. is_regular_file (disk s) [fname]
                              \<and> contains (toLower fname) needle)
                      (directory_iterator (disk s))
      in if matches = [] then s\<lparr>console := console s @ [NoFilesFound name]\<rparr>
         else
           let dirName = map (\<lambda>c. if c = CHR ''/'' \<or> c = CHR 0x5C then CHR ''_'' else c) name;
               destDir = [dirName];
               (made, s1) = (if fs_exists (disk s) destDir then (AlreadyThere, s)
                             else create_directory destDir s)
           in if made = Failed then s1\<lparr>console := console s1 @ [FailedToCreate destDir]\<rparr>
              else report (fold (moveMatch destDir) matches s1))"

text \<open>The first directory loop of branch 2 (lines 158-192), for the entry named \<open>fname\<close>.\<close>

definition countEntry :: "string list \<Rightarrow> string \<Rightarrow> run \<times> tokenmap \<Rightarrow> run \<times> tokenmap" where
  "countEntry ignoreSet fname st =
     (case st of (s, tokenCount) \<Rightarrow>
        if \<not> is_regular_file (disk s) [fname]
        then (s\<lparr>console := console s @ [SkippingNonRegular fname]\<rparr>, tokenCount)
        else (s, countStem ignoreSet fname tokenCount))"

text \<open>The whole first loop: the messages it prints and the map it builds.\<close>

definition countTokens :: "string list \<Rightarrow> run \<Rightarrow> run \<times> tokenmap" where
  "countTokens ignoreSet s = fold (countEntry ignoreSet) (directory_iterator (disk s)) (s, [])"

text \<open>Lines 195-198: the tokens counted at least twice, in the order of the map.\<close>

definition commonTokens :: "tokenmap \<Rightarrow> tokenmap" where
  "commonTokens tokenCount = filter (\<lambda>kv. 2 \<le> snd kv) tokenCount"

text \<open>The loop body of lines 245-267: one found file of a token's group.\<close>

definition moveFound :: "path \<Rightarrow> string \<Rightarrow> run \<Rightarrow> run" where
  "moveFound destDir fname s =
     (let dest = destDir @ [fname]
      in if fs_exists (disk s) dest
         then s\<lparr>skipped := skipped s + 1, skippedFiles := skippedFiles s @ [fname],
                console := console s @ [SkippingConflict fname]\<rparr>
         else
           let (moveEc, s1) = rename [fname] dest s
           in if moveEc
              then s1\<lparr>skipped := skipped s1 + 1, skippedFiles := skippedFiles s1 @ [fname],
                      console := console s1 @ [SkippingError fname]\<rparr>
              else s1\<lparr>moved := moved s1 + 1\<rparr>)"

text \<open>The files the re-scan of lines 220-228 finds for a token.\<close>

definition foundFiles :: "string list \<Rightarrow> string \<Rightarrow> filesystem \<Rightarrow> string list" where
  "foundFiles ignoreSet token fs =
     filter (\<lambda>fname. is_regular_file fs [fname]
               \<and> contains (toLower fname) token \<and> token \<notin> set ignoreSet)
       (directory_iterator fs)"

text \<open>The body of the loop over the ranked tokens (lines 217-267).\<close>

definition groupStep :: "string list \<Rightarrow> string \<Rightarrow> run \<Rightarrow> run" where
  "groupStep ignoreSet token s =
     (let found = foundFiles ignoreSet token (disk s)
      in if length found < 2 then s
         else
           let destDir = [token];
               (made, s1) = (if fs_exists (disk s) destDir then (AlreadyThere, s)
                             else create_directory destDir s)
           in if made = Failed then s1\<lparr>console := console s1 @ [FailedToCreate destDir]\<rparr>
              else fold (moveFound destDir) found s1)"

text \<open>
  Branch 2 (lines 148-269): auto-detection. \<open>std::sort\<close> promises a result ordered by
  the comparison and leaves the order of equal elements open, so the sort is the
  argument \<open>sort_by_count\<close>; the comparison is \<open>a.second > b.second\<close>.
\<close>

definition autoDetect :: "(tokenmap \<Rightarrow> tokenmap) \<Rightarrow> string list \<Rightarrow> run \<Rightarrow> run" where
  "autoDetect sort_by_count ignoreSet s =
     (let (s0, tokenCount) = countTokens ignoreSet s;
          common = sort_by_count (commonTokens tokenCount)
      in if common = [] then s0\<lparr>console := console s0 @ [NoCommonTokens]\<rparr>
         else
           let limit = min 10 (length common)
           in report (fold (groupStep ignoreSet) (map fst (take limit common)) s0))"



text \<open>
  \<open>cleanFilesByName\<close>: \<open>name\<close> is the line read from the user, \<open>ignoreTokens\<close> what
  \<open>getIgnoreTokens()\<close> returns.
\<close>

definition cleanFilesByName ::
  "(tokenmap \<Rightarrow> tokenmap) \<Rightarrow> string list \<Rightarrow> string \<Rightarrow> filesystem \<Rightarrow> bool list \<Rightarrow> run" where
  "cleanFilesByName sort_by_count ignoreTokens name fs fl =
     (if name \<noteq> [] then explicitSearch name (start fs fl)
      else autoDetect sort_by_count ignoreTokens (start fs fl))"

text \<open>
  A sort that keeps equal elements in their order, as the insertion sort that the usual
  implementations of \<open>std::sort\<close> run on short ranges does.
\<close>

fun insert_by_count :: "string \<times> nat \<Rightarrow> tokenmap \<Rightarrow> tokenmap" where
  "insert_by_count x [] = [x]"
| "insert_by_count x (y # ys) =
     (if snd x < snd y then y # insert_by_count x ys else x # y # ys)"

definition insertion_sort :: "tokenmap \<Rightarrow> tokenmap" where
  "insertion_sort xs = foldr insert_by_count xs []"

text \<open>
  The tokenizer as section 4.1 of the specification words it, for comparison with
  \<open>countStem\<close>: the maximal alphanumeric runs of the lowercased stem, then the whole
  lowercased stem, each kept when it has at least four characters and is no stop word.
\<close>

fun spec_runs :: "string \<Rightarrow> string \<Rightarrow> string list" where
  "spec_runs [] run = [run]"
| "spec_runs (ch # rest) run =
     (if isalnum ch then spec_runs rest (run @ [ch]) else run # spec_runs rest [])"

definition spec_extractTokens :: "string list \<Rightarrow> string \<Rightarrow> string list" where
  "spec_extractTokens stopWords stm =
     (let lower = toLower stm
      in filter (\<lambda>t. 4 \<le> length t \<and> t \<notin> set stopWords) (spec_runs lower [] @ [lower]))"

text \<open>The counter and the list of skipped files agree, and so does every summary printed.\<close>

definition tally :: "run \<Rightarrow> bool" where
  "tally s =
     (skipped s = length (skippedFiles s)
      \<and> list_all (\<lambda>m. case m of Report n k names \<Rightarrow> k = length names | _ \<Rightarrow> True) (console s))"



text \<open>
  What the loops can do to the tree, for reasoning about whole runs: \<open>reach D F fs fs'\<close>
  when \<open>fs'\<close> comes from \<open>fs\<close> by creating folders with names in \<open>D\<close> where nothing was,
  and by moving files with names in \<open>F\<close> from the directory into such a folder, to a
  place where nothing was.
\<close>

inductive reach :: "string set \<Rightarrow> string set \<Rightarrow> filesystem \<Rightarrow> filesystem \<Rightarrow> bool"
  for D :: "string set" and F :: "string set" and fs :: filesystem where
  reach_same: "reach D F fs fs"
| reach_mkdir: "reach D F fs fs1 \<Longrightarrow> d \<in> D \<Longrightarrow> \<not> fs_exists fs1 [d]
     \<Longrightarrow> reach D F fs (fs1 @ [([d], directory)])"
| reach_move: "reach D F fs fs1 \<Longrightarrow> d \<in> D \<Longrightarrow> f \<in> F \<Longrightarrow> map_of fs1 [f] = Some t
     \<Longrightarrow> \<not> fs_exists fs1 [d, f]
     \<Longrightarrow> reach D F fs (AList.delete [f] fs1 @ [([d, f], t)])"





text \<open>
  The built-in table of fileTypes.cpp (\<open>fallbackFileTypes\<close>), in the order in which the
  \<open>std::map\<close> is iterated: ascending category names.
\<close>

definition fallbackFileTypes :: "(string \<times> string list) list" where
  "fallbackFileTypes =
     [(''3D_Models'', [''.obj'', ''.fbx'', ''.stl'', ''.blend'', ''.3ds'', ''.dae'', ''.ply'',
        ''.gltf'', ''.glb'']),
      (''Archives'', [''.zip'', ''.rar'', ''.7z'', ''.tar'', ''.gz'', ''.bz2'', ''.xz'', ''.iso'',
        ''.dmg'', ''.tgz'', ''.cab'']),
      (''Audio'', [''.mp3'', ''.wav'', ''.flac'', ''.aac'', ''.ogg'', ''.wma'', ''.m4a'', ''.opus'',
        ''.aiff'', ''.mid'', ''.midi'']),
      (''Code'', [''.py'', ''.js'', ''.html'', ''.css'', ''.c'', ''.cpp'', ''.h'', ''.hpp'', ''.java'',
        ''.sh'', ''.ts'', ''.php'', ''.rb'', ''.go'', ''.swift'', ''.kt'', ''.rs'', ''.lua'', ''.sql'',
        ''.json'', ''.xml'', ''.yml'', ''.yaml'', ''.cs'', ''.vb'', ''.pl'', ''.asm'', ''.bat'',
        ''.cmd'']),
      (''Configs'', [''.ini'', ''.cfg'', ''.conf'', ''.jsonc'', ''.toml'', ''.env'',
        ''.properties'']),
      (''DiskImages'', [''.iso'', ''.img'', ''.vhd'', ''.vhdx'', ''.vdi'', ''.vmdk'']),
      (''Documents'', [''.pdf'', ''.doc'', ''.docx'', ''.txt'', ''.rtf'', ''.odt'', ''.csv'',
        ''.xlsx'', ''.xls'', ''.ppt'', ''.pptx'', ''.epub'', ''.md'', ''.tex'', ''.pages'',
        ''.numbers'', ''.key'']),
      (''Fonts'', [''.ttf'', ''.otf'', ''.woff'', ''.woff2'', ''.eot'', ''.fon'']),
      (''Images'', [''.jpg'', ''.jpeg'', ''.png'', ''.gif'', ''.bmp'', ''.tiff'', ''.webp'',
        ''.heic'', ''.heif'', ''.svg'', ''.ico'', ''.jfif'', ''.raw'', ''.arw'', ''.cr2'', ''.nef'',
        ''.orf'', ''.dng'']),
      (''Other'', []),
      (''Packages'', [''.deb'', ''.rpm'', ''.apk'', ''.jar'', ''.whl'', ''.gem'', ''.msi'']),
      (''Subtitles'', [''.srt'', ''.vtt'', ''.ass'', ''.ssa'', ''.sub'']),
      (''Videos'', [''.mp4'', ''.mov'', ''.avi'', ''.mkv'', ''.wmv'', ''.flv'', ''.webm'', ''.mpeg'',
        ''.mpg'', ''.3gp'', ''.m4v'', ''.ts'', ''.mts'', ''.vob''])]"

text \<open>
  A by-type run printed neither of its two failure messages: no folder creation and
  no move failed.
\<close>

definition no_failure_reported :: "run \<Rightarrow> bool" where
  "no_failure_reported s =
     list_all (\<lambda>m. case m of CouldNotCreate d \<Rightarrow> False | FailedToMove a b \<Rightarrow> False | _ \<Rightarrow> True)
       (console s)"

text \<open>
  A name needs no move by type: it is no regular file of the directory, or its
  extension is dangerous, or something of that name is in the folder of its type.
\<close>

definition settled :: "string list \<Rightarrow> (string \<rightharpoonup> string) \<Rightarrow> filesystem \<Rightarrow> string \<Rightarrow> bool" where
  "settled dangerous extToType fs fname =
     (\<not> is_regular_file fs [fname] \<or> toLower (extension fname) \<in> set dangerous
      \<or> fs_exists fs [lookupType extToType (toLower (extension fname)), fname])"

section \<open>Symbolic links and locked folders\<close>

text \<open>
  The program on every tree. A status query walks the path as \<open>stat\<close> does: it needs
  search permission on every folder it passes and follows every symbolic link it
  meets, the last component included. \<open>resolve fs n cur cs\<close> walks the components
  \<open>cs\<close> from the folder \<open>cur\<close> and gives the path it arrives at, or nothing when the
  walk fails with an error that is not the absence of the file: a locked folder on the
  way, or more than \<open>n\<close> links. The target of a link is a path of the tree, from
  \<open>directoryPath\<close>. Forty links are followed, as Linux does. The entry of \<open>[]\<close> is
  the folder that \<open>directoryPath\<close> leads to, so it is never a link itself.
\<close>

fun resolve :: "filesystem \<Rightarrow> nat \<Rightarrow> path \<Rightarrow> path \<Rightarrow> path option" where
  "resolve fs n cur [] = Some cur"
| "resolve fs n cur (c # cs) =
     (if map_of fs cur = Some locked then None
      else case map_of fs (cur @ [c]) of
             Some (symlink t) \<Rightarrow> if n = 0 then None else resolve fs (n - 1) [] (t @ cs)
           | _ \<Rightarrow> resolve fs n (cur @ [c]) cs)"

definition max_links :: nat where
  "max_links = 40"

text \<open>
  \<open>fs::exists(p)\<close>, the overload without \<open>error_code\<close> that the program calls: nothing
  stands for the \<open>filesystem_error\<close> it throws when the walk fails. A link whose target
  is absent does not exist for it.
\<close>

definition fs_exists' :: "filesystem \<Rightarrow> path \<Rightarrow> bool option" where
  "fs_exists' fs p =
     (case resolve fs max_links [] p of
        None \<Rightarrow> None
      | Some q \<Rightarrow> Some (map_of fs q \<noteq> None))"

text \<open>
  \<open>entry.is_regular_file()\<close> on an entry of the iteration: the iteration has read the
  type of the entry with its name, and only for a symbolic link the status of the
  target is queried, which can throw.
\<close>

definition is_regular_file' :: "filesystem \<Rightarrow> path \<Rightarrow> bool option" where
  "is_regular_file' fs p =
     (case map_of fs p of
        Some (symlink t) \<Rightarrow>
          (case resolve fs max_links [] p of
             None \<Rightarrow> None
           | Some q \<Rightarrow> Some (is_regular_file fs q))
      | _ \<Rightarrow> Some (is_regular_file fs p))"

text \<open>
  \<open>fs::create_directory(p, ec)\<close> and \<open>fs::rename(src, dest, ec)\<close>: \<open>mkdir\<close> and \<open>rename\<close>
  walk to the folder of the last component and do not follow a link that is the last
  component. \<open>mkdir\<close> on a name that is taken fails, and \<open>create_directory\<close> then
  reports no error when the name leads to a folder. \<open>rename\<close> puts the source in the
  place of a file or link that has the name of the destination. Neither works in a
  locked folder.
\<close>

definition create_directory' :: "path \<Rightarrow> run \<Rightarrow> mkdir_result \<times> run" where
  "create_directory' p s =
     (if fault s then (Failed, tick s)
      else case resolve (disk s) max_links [] (butlast p) of
             None \<Rightarrow> (Failed, tick s)
           | Some q \<Rightarrow>
               if map_of (disk s) (q @ [last p]) \<noteq> None
               then (case resolve (disk s) max_links [] p of
                       None \<Rightarrow> (Failed, tick s)
                     | Some r \<Rightarrow>
                         if map_of (disk s) r = Some directory \<or> map_of (disk s) r = Some locked
                         then (AlreadyThere, tick s) else (Failed, tick s))
               else if map_of (disk s) q \<noteq> Some directory then (Failed, tick s)
               else (Created, (tick s)\<lparr>disk := disk s @ [(q @ [last p], directory)]\<rparr>))"

definition rename' :: "path \<Rightarrow> path \<Rightarrow> run \<Rightarrow> bool \<times> run" where
  "rename' src dest s =
     (if fault s then (True, tick s)
      else case resolve (disk s) max_links [] (butlast src) of
             None \<Rightarrow> (True, tick s)
           | Some qs \<Rightarrow>
               (case resolve (disk s) max_links [] (butlast dest) of
                  None \<Rightarrow> (True, tick s)
                | Some qd \<Rightarrow>
                    (case map_of (disk s) (qs @ [last src]) of
                       None \<Rightarrow> (True, tick s)
                     | Some t \<Rightarrow>
                         if t = directory \<or> t = locked
                            \<or> map_of (disk s) qs = Some locked
                            \<or> map_of (disk s) qd \<noteq> Some directory
                            \<or> map_of (disk s) (qd @ [last dest]) = Some directory
                            \<or> map_of (disk s) (qd @ [last dest]) = Some locked
                         then (True, tick s)
                         else if qs @ [last src] = qd @ [last dest] then (False, tick s)
                         else (False, (tick s)\<lparr>disk :=
                                AList.delete (qs @ [last src])
                                  (AList.delete (qd @ [last dest]) (disk s))
                                @ [(qd @ [last dest], t)]\<rparr>))))"

text \<open>
  A function returns its result or a \<open>filesystem_error\<close> leaves it; no function of the
  program catches one. \<open>Threw s\<close> keeps the state the run had when the error was
  thrown. \<open>loop\<close> runs a loop body over a list until its end or the first throw.
\<close>

datatype 's outcome = Returned 's | Threw run

fun loop :: "('a \<Rightarrow> 's \<Rightarrow> 's outcome) \<Rightarrow> 'a list \<Rightarrow> 's \<Rightarrow> 's outcome" where
  "loop body [] s = Returned s"
| "loop body (x # xs) s =
     (case body x s of
        Returned s' \<Rightarrow> loop body xs s'
      | Threw s' \<Rightarrow> Threw s')"

fun final :: "run outcome \<Rightarrow> run" where
  "final (Returned s) = s"
| "final (Threw s) = s"

text \<open>cleanFilesByType: lines 106-146, lines 81-146 and the whole function.\<close>

definition relocate' :: "string \<Rightarrow> string \<Rightarrow> run \<Rightarrow> run outcome" where
  "relocate' type fname s =
     (let destDir = [type];
          dest = [type, fname]
      in case fs_exists' (disk s) destDir of
           None \<Rightarrow> Threw s
         | Some there \<Rightarrow>
            (let (made, s1) = (if there then (Created, s) else create_directory' destDir s)
             in if made \<noteq> Created
                then Returned (s1\<lparr>skipped := skipped s1 + 1,
                       skippedFiles := skippedFiles s1 @ [fname],
                       console := console s1 @ [CouldNotCreate destDir]\<rparr>)
                else (case fs_exists' (disk s1) dest of
                        None \<Rightarrow> Threw s1
                      | Some True \<Rightarrow>
                          Returned (s1\<lparr>skipped := skipped s1 + 1,
                            skippedFiles := skippedFiles s1 @ [fname]\<rparr>)
                      | Some False \<Rightarrow>
                          let (ec, s2) = rename' [fname] dest s1
                          in if ec
                             then Returned (s2\<lparr>skipped := skipped s2 + 1,
                                    skippedFiles := skippedFiles s2 @ [fname],
                                    console := console s2 @ [FailedToMove [fname] dest]\<rparr>)
                             else Returned (s2\<lparr>moved := moved s2 + 1\<rparr>))))"

definition typeStep' ::
  "string list \<Rightarrow> (string \<rightharpoonup> string) \<Rightarrow> string \<Rightarrow> run \<Rightarrow> run outcome" where
  "typeStep' dangerous extToType fname s =
     (case is_regular_file' (disk s) [fname] of
        None \<Rightarrow> Threw s
      | Some False \<Rightarrow> Returned s
      | Some True \<Rightarrow>
         (let lowerExt = toLower (extension fname) in
          if lowerExt \<in> set dangerous
          then Returned (s\<lparr>skipped := skipped s + 1, skippedFiles := skippedFiles s @ [fname],
                 console := console s @ [SkippedDangerous fname]\<rparr>)
          else relocate' (lookupType extToType lowerExt) fname s))"

definition cleanFilesByType' ::
  "string list \<Rightarrow> (string \<times> string list) list \<Rightarrow> filesystem \<Rightarrow> bool list \<Rightarrow> run outcome" where
  "cleanFilesByType' dangerous fileTypes fs fl =
     (let s = start fs fl
      in if map_of fs [] \<noteq> Some directory \<and> map_of fs [] \<noteq> Some locked
         then Returned (s\<lparr>console := [InvalidDirectory]\<rparr>)
         else (case loop (typeStep' dangerous (buildExtToType fileTypes))
                      (directory_iterator fs) s of
                 Returned s' \<Rightarrow> Returned (report s')
               | Threw s' \<Rightarrow> Threw s'))"

text \<open>cleanFilesByName: the loop bodies of lines 126-146 and of lines 245-267.\<close>

definition moveMatch' :: "path \<Rightarrow> string \<Rightarrow> run \<Rightarrow> run outcome" where
  "moveMatch' destDir fname s =
     (let dest = destDir @ [fname]
      in case fs_exists' (disk s) dest of
           None \<Rightarrow> Threw s
         | Some True \<Rightarrow>
             Returned (s\<lparr>skipped := skipped s + 1, skippedFiles := skippedFiles s @ [fname]\<rparr>)
         | Some False \<Rightarrow>
            (let (moveEc, s1) = rename' [fname] dest s
             in if moveEc
                then Returned (s1\<lparr>skipped := skipped s1 + 1,
                       skippedFiles := skippedFiles s1 @ [fname]\<rparr>)
                else Returned (s1\<lparr>moved := moved s1 + 1\<rparr>)))"

definition moveFound' :: "path \<Rightarrow> string \<Rightarrow> run \<Rightarrow> run outcome" where
  "moveFound' destDir fname s =
     (let dest = destDir @ [fname]
      in case fs_exists' (disk s) dest of
           None \<Rightarrow> Threw s
         | Some True \<Rightarrow>
             Returned (s\<lparr>skipped := skipped s + 1, skippedFiles := skippedFiles s @ [fname],
               console := console s @ [SkippingConflict fname]\<rparr>)
         | Some False \<Rightarrow>
            (let (moveEc, s1) = rename' [fname] dest s
             in if moveEc
                then Returned (s1\<lparr>skipped := skipped s1 + 1,
                       skippedFiles := skippedFiles s1 @ [fname],
                       console := console s1 @ [SkippingError fname]\<rparr>)
                else Returned (s1\<lparr>moved := moved s1 + 1\<rparr>)))"

text \<open>
  The auto-detect branch of cleanFilesByName: the body of the first loop (lines
  158-192), the body of the re-scan (lines 221-228), the body of the loop over the
  ranked tokens (lines 217-267) and the branch (lines 148-269).
\<close>

definition countEntry' ::
  "string list \<Rightarrow> string \<Rightarrow> run \<times> tokenmap \<Rightarrow> (run \<times> tokenmap) outcome" where
  "countEntry' ignoreSet fname st =
     (case st of (s, tokenCount) \<Rightarrow>
        (case is_regular_file' (disk s) [fname] of
           None \<Rightarrow> Threw s
         | Some False \<Rightarrow>
             Returned (s\<lparr>console := console s @ [SkippingNonRegular fname]\<rparr>, tokenCount)
         | Some True \<Rightarrow> Returned (s, countStem ignoreSet fname tokenCount)))"

definition scanEntry' ::
  "string list \<Rightarrow> string \<Rightarrow> string \<Rightarrow> run \<times> string list \<Rightarrow> (run \<times> string list) outcome" where
  "scanEntry' ignoreSet token fname st =
     (case st of (s, found) \<Rightarrow>
        (case is_regular_file' (disk s) [fname] of
           None \<Rightarrow> Threw s
         | Some False \<Rightarrow> Returned (s, found)
         | Some True \<Rightarrow>
             Returned (s, if contains (toLower fname) token \<and> token \<notin> set ignoreSet
                          then found @ [fname] else found)))"

definition groupStep' :: "string list \<Rightarrow> string \<Rightarrow> run \<Rightarrow> run outcome" where
  "groupStep' ignoreSet token s =
     (case loop (scanEntry' ignoreSet token) (directory_iterator (disk s)) (s, []) of
        Threw s' \<Rightarrow> Threw s'
      | Returned (s0, found) \<Rightarrow>
          if length found < 2 then Returned s0
          else
            (let destDir = [token]
             in (case fs_exists' (disk s0) destDir of
                   None \<Rightarrow> Threw s0
                 | Some there \<Rightarrow>
                    (let (made, s1) = (if there then (AlreadyThere, s0)
                                       else create_directory' destDir s0)
                     in if made = Failed
                        then Returned (s1\<lparr>console := console s1 @ [FailedToCreate destDir]\<rparr>)
                        else loop (moveFound' destDir) found s1))))"

definition autoDetect' ::
  "(tokenmap \<Rightarrow> tokenmap) \<Rightarrow> string list \<Rightarrow> run \<Rightarrow> run outcome" where
  "autoDetect' sort_by_count ignoreSet s =
     (case loop (countEntry' ignoreSet) (directory_iterator (disk s)) (s, []) of
        Threw s' \<Rightarrow> Threw s'
      | Returned (s0, tokenCount) \<Rightarrow>
         (let common = sort_by_count (commonTokens tokenCount)
          in if common = [] then Returned (s0\<lparr>console := console s0 @ [NoCommonTokens]\<rparr>)
             else
               (let limit = min 10 (length common)
                in (case loop (groupStep' ignoreSet) (map fst (take limit common)) s0 of
                      Returned s' \<Rightarrow> Returned (report s')
                    | Threw s' \<Rightarrow> Threw s'))))"

text \<open>A plain tree: no entry is a symbolic link or a locked folder.\<close>

definition plain :: "filesystem \<Rightarrow> bool" where
  "plain fs =
     list_all (\<lambda>entry. case snd entry of symlink t \<Rightarrow> False | locked \<Rightarrow> False | _ \<Rightarrow> True) fs"

section \<open>The mutating calls touch the tree and the faults only\<close>

lemma create_directory_locals:
  assumes "create_directory p s = (r, s')"
  shows "moved s' = moved s \<and> skipped s' = skipped s \<and> skippedFiles s' = skippedFiles s
         \<and> console s' = console s"
  using assms by (auto simp: create_directory_def tick_def split: if_splits)

lemma rename_locals:
  assumes "rename src dest s = (ec, s')"
  shows "moved s' = moved s \<and> skipped s' = skipped s \<and> skippedFiles s' = skippedFiles s
         \<and> console s' = console s"
  using assms by (auto simp: rename_def tick_def split: if_splits option.splits)

lemma create_directory_tally: "create_directory p s = (r, s') \<Longrightarrow> tally s' = tally s"
  by (drule create_directory_locals) (simp add: tally_def)

lemma rename_tally: "rename src dest s = (ec, s') \<Longrightarrow> tally s' = tally s"
  by (drule rename_locals) (simp add: tally_def)

section \<open>Skip counter and skip list\<close>

lemma relocate_tally:
  assumes "tally s"
  shows "tally (relocate type fname s)"
proof -
  obtain made s1 where m: "(if fs_exists (disk s) [type] then (Created, s)
                            else create_directory [type] s) = (made, s1)"
    by fastforce
  then have t1: "tally s1"
    using assms by (auto split: if_splits dest: create_directory_tally)
  obtain ec s2 where r: "rename [fname] [type, fname] s1 = (ec, s2)"
    by fastforce
  then have t2: "tally s2"
    using t1 by (simp add: rename_tally)
  show ?thesis
    using t1 t2 unfolding relocate_def Let_def m r prod.case
    by (simp add: tally_def)
qed

lemma typeStep_tally: "tally s \<Longrightarrow> tally (typeStep dangerous extToType fname s)"
  by (simp add: typeStep_def Let_def relocate_tally) (simp add: tally_def)

lemma moveMatch_tally: "tally s \<Longrightarrow> tally (moveMatch destDir fname s)"
  unfolding moveMatch_def Let_def
  by (auto split: prod.splits if_splits dest!: rename_tally) (auto simp: tally_def)

lemma moveFound_tally: "tally s \<Longrightarrow> tally (moveFound destDir fname s)"
  unfolding moveFound_def Let_def
  by (auto split: prod.splits if_splits dest!: rename_tally) (auto simp: tally_def)

lemma fold_tally:
  assumes "\<And>x s. tally s \<Longrightarrow> tally (f x s)"
  shows "tally s \<Longrightarrow> tally (fold f xs s)"
  by (induction xs arbitrary: s) (simp_all add: assms)

lemma report_tally: "tally s \<Longrightarrow> tally (report s)"
  by (simp add: tally_def report_def)

lemma start_tally: "tally (start fs fl)"
  by (simp add: tally_def start_def)

lemma cleanFilesByType_tally: "tally (cleanFilesByType dangerous fileTypes fs fl)"
proof (cases "\<not> fs_exists fs [] \<or> \<not> is_directory fs []")
  case True
  then show ?thesis
    by (simp add: cleanFilesByType_def Let_def tally_def start_def)
next
  case False
  have "tally (fold (typeStep dangerous (buildExtToType fileTypes)) (directory_iterator fs)
                (start fs fl))"
    by (rule fold_tally [OF typeStep_tally start_tally])
  with False show ?thesis
    by (simp add: cleanFilesByType_def Let_def report_tally)
qed

lemma explicitSearch_tally: "tally s \<Longrightarrow> tally (explicitSearch name s)"
  unfolding explicitSearch_def Let_def
  by (auto split: prod.splits if_splits dest!: create_directory_tally
        intro!: report_tally fold_tally moveMatch_tally)
     (auto simp: tally_def)

lemma groupStep_tally: "tally s \<Longrightarrow> tally (groupStep ignoreSet token s)"
  unfolding groupStep_def Let_def
  by (auto split: prod.splits if_splits dest!: create_directory_tally
        intro!: fold_tally moveFound_tally)
     (auto simp: tally_def)

lemma countEntry_tally: "tally (fst st) \<Longrightarrow> tally (fst (countEntry ignoreSet fname st))"
  by (cases st) (auto simp: countEntry_def tally_def)

lemma fold_countEntry_tally:
  "tally (fst st) \<Longrightarrow> tally (fst (fold (countEntry ignoreSet) names st))"
  by (induction names arbitrary: st) (simp_all add: countEntry_tally)

lemma autoDetect_tally:
  assumes "tally s"
  shows "tally (autoDetect sort_by_count ignoreSet s)"
proof -
  obtain s0 tc where st: "countTokens ignoreSet s = (s0, tc)"
    by fastforce
  have s0: "tally s0"
    using fold_countEntry_tally [of "(s, [])" ignoreSet "directory_iterator (disk s)"] assms st
    by (simp add: countTokens_def)
  then have no: "tally (s0\<lparr>console := console s0 @ [NoCommonTokens]\<rparr>)"
    by (simp add: tally_def)
  have "tally (report (fold (groupStep ignoreSet) ts s0))" for ts
    by (intro report_tally fold_tally groupStep_tally s0)
  with no show ?thesis
    by (simp add: autoDetect_def Let_def st)
qed

text \<open>
  C10. In \<open>cleanFilesByType\<close> and in both branches of \<open>cleanFilesByName\<close>, at the end of
  every run the counter \<open>skipped\<close> equals the number of entries of \<open>skippedFiles\<close>, and
  a summary that was printed shows a skip count equal to the length of the list it
  shows.
\<close>

theorem skipped_counter_matches_list:
  "skipped (cleanFilesByType dangerous fileTypes fs fl)
     = length (skippedFiles (cleanFilesByType dangerous fileTypes fs fl))
   \<and> skipped (cleanFilesByName sort_by_count ignoreTokens name fs fl)
     = length (skippedFiles (cleanFilesByName sort_by_count ignoreTokens name fs fl))
   \<and> (Report n k names \<in> set (console (cleanFilesByType dangerous fileTypes fs fl))
        \<longrightarrow> k = length names)
   \<and> (Report n k names \<in> set (console (cleanFilesByName sort_by_count ignoreTokens name fs fl))
        \<longrightarrow> k = length names)"
proof -
  have t: "tally (cleanFilesByType dangerous fileTypes fs fl)"
    by (rule cleanFilesByType_tally)
  have n: "tally (cleanFilesByName sort_by_count ignoreTokens name fs fl)"
    by (simp add: cleanFilesByName_def explicitSearch_tally autoDetect_tally start_tally)
  have r: "tally s \<Longrightarrow> Report n k names \<in> set (console s) \<Longrightarrow> k = length names" for s
    by (auto simp: tally_def list_all_iff split: message.splits)
  from t n show ?thesis
    using r [OF t] r [OF n] by (simp add: tally_def)
qed

theorem skipped_counter_matches_list_witness:
  "Report 1 1 [''report.exe'']
     \<in> set (console (cleanFilesByType DEFAULT_DANGEROUS_EXTS [(''Documents'', [''.txt''])]
          [([], directory), ([''report.exe''], regular 1), ([''report.txt''], regular 2)] []))
   \<and> skipped (cleanFilesByType DEFAULT_DANGEROUS_EXTS [(''Documents'', [''.txt''])]
          [([], directory), ([''report.exe''], regular 1), ([''report.txt''], regular 2)] [])
       = length [''report.exe'']"
proof -
  have h: "Report 1 1 [''report.exe'']
     \<in> set (console (cleanFilesByType DEFAULT_DANGEROUS_EXTS [(''Documents'', [''.txt''])]
          [([], directory), ([''report.exe''], regular 1), ([''report.txt''], regular 2)] []))"
    by code_simp
  have l: "skippedFiles (cleanFilesByType DEFAULT_DANGEROUS_EXTS [(''Documents'', [''.txt''])]
          [([], directory), ([''report.exe''], regular 1), ([''report.txt''], regular 2)] [])
       = [''report.exe'']"
    by code_simp
  show ?thesis
    using h l skipped_counter_matches_list [where n = 1 and k = 1 and names = "[''report.exe'']"
        and dangerous = DEFAULT_DANGEROUS_EXTS and fileTypes = "[(''Documents'', [''.txt''])]"
        and fs = "[([], directory), ([''report.exe''], regular 1), ([''report.txt''], regular 2)]"
        and fl = "[]" and sort_by_count = insertion_sort and ignoreTokens = "[]" and name = "[]"]
    by simp
qed

section \<open>The tokenizer\<close>

text \<open>
  C1. The claim: auto-detect tokenization emits exactly the maximal alphanumeric runs of
  the lowercased stem that have at least four characters and are no stop words, the
  accumulator being reset at every boundary, and the whole stem. The code resets the
  accumulator only when it emits: for the file \<open>ab_cd.txt\<close> it counts the merged token
  \<open>abcd\<close>, where the two runs \<open>ab\<close> and \<open>cd\<close> are too short and only the whole stem
  qualifies; for \<open>video_clip.mp4\<close> with the stop word \<open>video\<close> it counts \<open>videoclip\<close>
  and never the run \<open>clip\<close>.
\<close>

theorem tokenizer_merges_runs:
  "countStem [] ''ab_cd.txt'' [] = [(''ab_cd'', 1), (''abcd'', 1)]
   \<and> spec_extractTokens [] (stem ''ab_cd.txt'') = [''ab_cd'']
   \<and> countStem [''video''] ''video_clip.mp4'' [] = [(''video_clip'', 1), (''videoclip'', 1)]
   \<and> spec_extractTokens [''video''] (stem ''video_clip.mp4'') = [''clip'', ''video_clip'']"
  by code_simp

section \<open>What the loops do to the tree\<close>


lemma reach_trans: "reach D F b c \<Longrightarrow> reach D F a b \<Longrightarrow> reach D F a c"
  by (induction rule: reach.induct) (auto intro: reach.intros)

lemma reach_mono: "reach D F a b \<Longrightarrow> D \<subseteq> D' \<Longrightarrow> F \<subseteq> F' \<Longrightarrow> reach D' F' a b"
  by (induction rule: reach.induct) (auto intro: reach.intros)



lemma in_directory_iterator: "g \<in> set (directory_iterator fs) \<longleftrightarrow> map_of fs [g] \<noteq> None"
  by (induction fs) (auto simp: directory_iterator_def split: list.splits)




lemma reach_persists:
  "reach D F fs fs' \<Longrightarrow> map_of fs p = Some x \<Longrightarrow> (\<And>f. f \<in> F \<Longrightarrow> p \<noteq> [f])
     \<Longrightarrow> map_of fs' p = Some x"
proof (induction rule: reach.induct)
  case reach_same
  then show ?case by simp
next
  case (reach_mkdir fs1 d)
  then show ?case by (simp add: map_add_def)
next
  case (reach_move fs1 d f t)
  then have "map_of fs1 p = Some x" and "p \<noteq> [f]" by auto
  then show ?case by (simp add: map_add_def)
qed

lemma reach_new_entries:
  "reach D F fs fs' \<Longrightarrow> map_of fs' [g] = Some x
     \<Longrightarrow> map_of fs [g] = Some x \<or> (x = directory \<and> g \<in> D)"
proof (induction arbitrary: x rule: reach.induct)
  case reach_same
  then show ?case by simp
next
  case (reach_mkdir fs1 d)
  then show ?case
    by (auto simp: map_add_def split: option.splits if_splits)
next
  case (reach_move fs1 d f t)
  from reach_move.prems have "map_of fs1 [g] = Some x"
    by (auto simp: map_add_def AList.delete_conv' split: option.splits if_splits)
  then show ?case by (rule reach_move.IH)
qed


lemma create_directory_failed_disk:
  "create_directory p s = (r, s') \<Longrightarrow> r \<noteq> Created \<Longrightarrow> disk s' = disk s"
  by (auto simp: create_directory_def tick_def split: if_splits)

lemma create_directory_created_disk:
  "create_directory p s = (Created, s') \<Longrightarrow> disk s' = disk s @ [(p, directory)]"
  by (auto simp: create_directory_def tick_def split: if_splits)

lemma create_directory_reach:
  assumes "create_directory [d] s = (r, s')" and "\<not> fs_exists (disk s) [d]" and "d \<in> D"
  shows "reach D F (disk s) (disk s')"
proof (cases "r = Created")
  case True
  with assms(1) have "disk s' = disk s @ [([d], directory)]"
    by (simp add: create_directory_created_disk)
  with assms(2,3) show ?thesis
    by (simp add: reach_mkdir reach_same)
next
  case False
  with assms(1) show ?thesis
    by (simp add: create_directory_failed_disk reach_same)
qed

lemma rename_failed_disk: "rename src dest s = (True, s') \<Longrightarrow> disk s' = disk s"
  by (auto simp: rename_def tick_def split: if_splits option.splits)

lemma rename_done_disk:
  assumes "rename src dest s = (False, s')" and "src \<noteq> dest"
  shows "\<exists>t. map_of (disk s) src = Some t
           \<and> disk s' = AList.delete src (AList.delete dest (disk s)) @ [(dest, t)]"
  using assms by (auto simp: rename_def tick_def split: if_splits option.splits)

lemma delete_absent: "\<not> fs_exists fs p \<Longrightarrow> AList.delete p fs = fs"
  by (simp add: fs_exists_def map_of_eq_None_iff)

lemma rename_reach:
  assumes "rename [f] [d, f] s = (ec, s')" and "\<not> fs_exists (disk s) [d, f]"
    and "d \<in> D" and "f \<in> F"
  shows "reach D F (disk s) (disk s')"
proof (cases ec)
  case True
  with assms(1) show ?thesis
    by (simp add: rename_failed_disk reach_same)
next
  case False
  with assms(1) obtain t where t: "map_of (disk s) [f] = Some t"
    and d: "disk s' = AList.delete [f] (AList.delete [d, f] (disk s)) @ [([d, f], t)]"
    using rename_done_disk [of "[f]" "[d, f]" s s'] by auto
  from d assms(2) have "disk s' = AList.delete [f] (disk s) @ [([d, f], t)]"
    by (simp add: delete_absent)
  with t assms(2-4) show ?thesis
    by (simp add: reach_move [OF reach_same])
qed

lemma moveFound_reach:
  assumes "d \<in> D" and "f \<in> F"
  shows "reach D F (disk s) (disk (moveFound [d] f s))"
proof (cases "fs_exists (disk s) [d, f]")
  case True
  then show ?thesis by (simp add: moveFound_def reach_same)
next
  case False
  obtain ec s1 where r: "rename [f] [d, f] s = (ec, s1)" by fastforce
  from rename_reach [OF r False assms] False r show ?thesis
    by (simp add: moveFound_def)
qed

lemma moveMatch_reach:
  assumes "d \<in> D" and "f \<in> F"
  shows "reach D F (disk s) (disk (moveMatch [d] f s))"
proof (cases "fs_exists (disk s) [d, f]")
  case True
  then show ?thesis by (simp add: moveMatch_def reach_same)
next
  case False
  obtain ec s1 where r: "rename [f] [d, f] s = (ec, s1)" by fastforce
  from rename_reach [OF r False assms] False r show ?thesis
    by (simp add: moveMatch_def)
qed

lemma fold_reach:
  assumes "\<And>x s. x \<in> set xs \<Longrightarrow> reach D F (disk s) (disk (g x s))"
  shows "reach D F (disk s) (disk (fold g xs s))"
  using assms
proof (induction xs arbitrary: s)
  case Nil
  then show ?case by (simp add: reach_same)
next
  case (Cons x xs)
  have "reach D F (disk s) (disk (g x s))"
    by (simp add: Cons.prems)
  moreover have "reach D F (disk (g x s)) (disk (fold g xs (g x s)))"
    by (rule Cons.IH) (simp add: Cons.prems)
  ultimately show ?case
    by (simp add: reach_trans)
qed

lemma relocate_reach:
  assumes "d \<in> D" and "f \<in> F"
  shows "reach D F (disk s) (disk (relocate d f s))"
proof -
  obtain made s1 where m: "(if fs_exists (disk s) [d] then (Created, s)
                            else create_directory [d] s) = (made, s1)"
    by fastforce
  then have r1: "reach D F (disk s) (disk s1)"
    using assms(1) by (auto split: if_splits intro: reach_same create_directory_reach)
  obtain ec s2 where r: "rename [f] [d, f] s1 = (ec, s2)"
    by fastforce
  have "reach D F (disk s) (disk s2)" if "\<not> fs_exists (disk s1) [d, f]"
    using rename_reach [OF r that assms] r1 by (rule reach_trans)
  with r1 show ?thesis
    unfolding relocate_def Let_def m r prod.case by simp
qed

lemma typeStep_reach:
  assumes "toLower (extension f) \<notin> set dangerous \<Longrightarrow> f \<in> F"
  shows "reach UNIV F (disk s) (disk (typeStep dangerous extToType f s))"
  using assms by (simp add: typeStep_def Let_def reach_same relocate_reach)

lemma report_disk: "disk (report s) = disk s"
  by (simp add: report_def)


lemma groupStep_reach:
  "reach {token} UNIV (disk s) (disk (groupStep ignoreSet token s))"
proof -
  obtain made s1 where m: "(if fs_exists (disk s) [token] then (AlreadyThere, s)
                            else create_directory [token] s) = (made, s1)"
    by fastforce
  then have r1: "reach {token} UNIV (disk s) (disk s1)"
    by (auto split: if_splits intro: reach_same create_directory_reach)
  have "reach {token} UNIV (disk s1) (disk (fold (moveFound [token]) xs s1))" for xs
    by (rule fold_reach) (simp add: moveFound_reach)
  then have "reach {token} UNIV (disk s) (disk (fold (moveFound [token]) xs s1))" for xs
    using r1 by (rule reach_trans)
  with r1 show ?thesis
    unfolding groupStep_def Let_def m prod.case by (simp add: reach_same)
qed

lemma explicitSearch_reach: "reach UNIV UNIV (disk s) (disk (explicitSearch name s))"
proof -
  define dirName where "dirName = map (\<lambda>c. if c = CHR ''/'' \<or> c = CHR 0x5C then CHR ''_'' else c) name"
  obtain made s1 where m: "(if fs_exists (disk s) [dirName] then (AlreadyThere, s)
                            else create_directory [dirName] s) = (made, s1)"
    by fastforce
  then have r1: "reach UNIV UNIV (disk s) (disk s1)"
    by (auto split: if_splits intro: reach_same create_directory_reach)
  have "reach UNIV UNIV (disk s1) (disk (fold (moveMatch [dirName]) xs s1))" for xs
    by (rule fold_reach) (simp add: moveMatch_reach)
  then have "reach UNIV UNIV (disk s) (disk (fold (moveMatch [dirName]) xs s1))" for xs
    using r1 by (rule reach_trans)
  with r1 show ?thesis
    unfolding explicitSearch_def Let_def dirName_def [symmetric] m prod.case
    by (simp add: reach_same report_disk)
qed

lemma countEntry_disk: "disk (fst (countEntry ignoreSet fname st)) = disk (fst st)"
  by (cases st) (simp add: countEntry_def)

lemma fold_countEntry_disk: "disk (fst (fold (countEntry ignoreSet) names st)) = disk (fst st)"
  by (induction names arbitrary: st) (simp_all add: countEntry_disk)

lemma autoDetect_reach: "reach UNIV UNIV (disk s) (disk (autoDetect sort_by_count ignoreSet s))"
proof -
  obtain s0 tc where st: "countTokens ignoreSet s = (s0, tc)"
    by fastforce
  have d: "disk s0 = disk s"
    using fold_countEntry_disk [of ignoreSet "directory_iterator (disk s)" "(s, [])"] st
    by (simp add: countTokens_def)
  have "reach UNIV UNIV (disk s0) (disk (fold (groupStep ignoreSet) ts s0))" for ts
    by (rule fold_reach) (rule reach_mono [OF groupStep_reach], simp_all)
  then show ?thesis
    by (simp add: autoDetect_def Let_def st d report_disk reach_same)
qed

lemma cleanFilesByName_reach:
  "reach UNIV UNIV fs (disk (cleanFilesByName sort_by_count ignoreTokens name fs fl))"
  using explicitSearch_reach [of "start fs fl" name]
    autoDetect_reach [of "start fs fl" sort_by_count ignoreTokens]
  by (simp add: cleanFilesByName_def start_def)



section \<open>A move onto a name that is taken\<close>

lemma relocate_conflict:
  assumes "fs_exists (disk s) [type, f]" and "fs_exists (disk s) [f]"
  shows "moved (relocate type f s) = moved s
       \<and> skipped (relocate type f s) = skipped s + 1
       \<and> skippedFiles (relocate type f s) = skippedFiles s @ [f]
       \<and> map_of (disk (relocate type f s)) [f] = map_of (disk s) [f]
       \<and> map_of (disk (relocate type f s)) [type, f] = map_of (disk s) [type, f]"
proof -
  obtain made s1 where m: "(if fs_exists (disk s) [type] then (Created, s)
                            else create_directory [type] s) = (made, s1)"
    by fastforce
  have loc: "moved s1 = moved s \<and> skipped s1 = skipped s \<and> skippedFiles s1 = skippedFiles s"
    using m by (auto split: if_splits dest: create_directory_locals)
  have dsk: "disk s1 = disk s \<or> (made = Created \<and> disk s1 = disk s @ [([type], directory)])"
    using m create_directory_failed_disk [of "[type]" s made s1]
      create_directory_created_disk [of "[type]" s s1]
    by (cases "made = Created") (auto split: if_splits)
  then have keep: "map_of (disk s1) [f] = map_of (disk s) [f]
      \<and> map_of (disk s1) [type, f] = map_of (disk s) [type, f]"
    using assms by (auto simp: fs_exists_def map_add_def)
  with assms have ex: "fs_exists (disk s1) [type, f]"
    by (simp add: fs_exists_def)
  show ?thesis
    unfolding relocate_def Let_def m prod.case using loc keep ex by simp
qed

section \<open>Dangerous extensions\<close>









section \<open>Explicit-name search without a match\<close>



section \<open>Groups of fewer than two files\<close>











section \<open>The first loop of auto-detection\<close>




section \<open>Candidates\<close>



















section \<open>Ranking\<close>













section \<open>After a by-type run that reports no failure\<close>



lemma relocate_console: "\<exists>ms. console (relocate d f s) = console s @ ms"
proof -
  obtain made s1 where m: "(if fs_exists (disk s) [d] then (Created, s)
                            else create_directory [d] s) = (made, s1)"
    by fastforce
  have c1: "console s1 = console s"
    using m by (auto split: if_splits dest: create_directory_locals)
  obtain ec s2 where r: "rename [f] [d, f] s1 = (ec, s2)"
    by fastforce
  then have c2: "console s2 = console s"
    using c1 by (simp add: rename_locals)
  show ?thesis
    unfolding relocate_def Let_def m r prod.case using c1 c2 by simp
qed

lemma typeStep_console: "\<exists>ms. console (typeStep dangerous extToType f s) = console s @ ms"
proof (cases "\<not> is_regular_file (disk s) [f] \<or> toLower (extension f) \<in> set dangerous")
  case True
  then show ?thesis by (auto simp: typeStep_def)
next
  case False
  with relocate_console [of "lookupType extToType (toLower (extension f))" f s] show ?thesis
    by (simp add: typeStep_def Let_def)
qed

lemma typeStep_quiet:
  assumes "no_failure_reported (typeStep dangerous extToType f s)"
  shows "no_failure_reported s"
proof -
  obtain ms where "console (typeStep dangerous extToType f s) = console s @ ms"
    using typeStep_console by blast
  with assms show ?thesis
    by (simp add: no_failure_reported_def)
qed

lemma fold_typeStep_quiet:
  "no_failure_reported (fold (typeStep dangerous extToType) names s) \<Longrightarrow> no_failure_reported s"
  by (induction names arbitrary: s) (auto dest: typeStep_quiet)

lemma rename_done_source:
  assumes "rename [f] [d, f] s = (False, s')"
  shows "\<not> is_regular_file (disk s') [f]"
proof -
  from rename_done_disk [OF assms] obtain t
    where "disk s' = AList.delete [f] (AList.delete [d, f] (disk s)) @ [([d, f], t)]"
    by auto
  then show ?thesis
    by (simp add: is_regular_file_def map_add_def AList.delete_conv')
qed

lemma relocate_settles:
  assumes "no_failure_reported (relocate d f s)"
  shows "\<not> is_regular_file (disk (relocate d f s)) [f] \<or> fs_exists (disk (relocate d f s)) [d, f]"
proof -
  obtain made s1 where m: "(if fs_exists (disk s) [d] then (Created, s)
                            else create_directory [d] s) = (made, s1)"
    by fastforce
  obtain ec s2 where r: "rename [f] [d, f] s1 = (ec, s2)"
    by fastforce
  have made: "made = Created"
    using assms unfolding relocate_def Let_def m r prod.case
    by (auto simp: no_failure_reported_def split: if_splits)
  show ?thesis
  proof (cases "fs_exists (disk s1) [d, f]")
    case True
    with made show ?thesis
      unfolding relocate_def Let_def m r prod.case by simp
  next
    case False
    with made assms have "\<not> ec"
      unfolding relocate_def Let_def m r prod.case
      by (auto simp: no_failure_reported_def split: if_splits)
    with r have "\<not> is_regular_file (disk s2) [f]"
      by (simp add: rename_done_source)
    with made False \<open>\<not> ec\<close> show ?thesis
      unfolding relocate_def Let_def m r prod.case by simp
  qed
qed

lemma typeStep_settles:
  assumes "no_failure_reported (typeStep dangerous extToType f s)"
  shows "settled dangerous extToType (disk (typeStep dangerous extToType f s)) f"
proof (cases "\<not> is_regular_file (disk s) [f] \<or> toLower (extension f) \<in> set dangerous")
  case True
  then show ?thesis
    by (auto simp: typeStep_def settled_def is_regular_file_def)
next
  case False
  with assms relocate_settles [of "lookupType extToType (toLower (extension f))" f s]
  show ?thesis
    by (simp add: typeStep_def Let_def settled_def)
qed

lemma reach_settled:
  assumes "reach D F fs fs'" and "settled dangerous extToType fs f"
  shows "settled dangerous extToType fs' f"
proof (cases "is_regular_file fs' [f]")
  case False
  then show ?thesis by (simp add: settled_def)
next
  case True
  then obtain c where "map_of fs' [f] = Some (regular c)"
    by (auto simp: is_regular_file_def split: option.splits file_type.splits)
  with reach_new_entries [OF assms(1)] have "map_of fs [f] = Some (regular c)"
    by blast
  then have "is_regular_file fs [f]"
    by (simp add: is_regular_file_def)
  with assms(2) consider "toLower (extension f) \<in> set dangerous"
    | "fs_exists fs [lookupType extToType (toLower (extension f)), f]"
    by (auto simp: settled_def)
  then show ?thesis
  proof cases
    case 1
    then show ?thesis by (simp add: settled_def)
  next
    case 2
    then obtain x where "map_of fs [lookupType extToType (toLower (extension f)), f] = Some x"
      by (auto simp: fs_exists_def)
    then have "map_of fs' [lookupType extToType (toLower (extension f)), f] = Some x"
      by (rule reach_persists [OF assms(1)]) simp
    then show ?thesis by (simp add: settled_def fs_exists_def)
  qed
qed

lemma fold_typeStep_settles:
  assumes "no_failure_reported (fold (typeStep dangerous extToType) names s)"
    and "f \<in> set names"
  shows "settled dangerous extToType (disk (fold (typeStep dangerous extToType) names s)) f"
  using assms
proof (induction names arbitrary: s)
  case Nil
  then show ?case by simp
next
  case (Cons x xs)
  let ?s' = "typeStep dangerous extToType x s"
  from Cons.prems(1) have q: "no_failure_reported (fold (typeStep dangerous extToType) xs ?s')"
    by simp
  show ?case
  proof (cases "f \<in> set xs")
    case True
    from Cons.IH [OF q True] show ?thesis by simp
  next
    case False
    with Cons.prems(2) have fx: "f = x" by simp
    from q have "no_failure_reported ?s'"
      by (rule fold_typeStep_quiet)
    then have "settled dangerous extToType (disk ?s') x"
      by (rule typeStep_settles)
    moreover have "reach UNIV UNIV (disk ?s') (disk (fold (typeStep dangerous extToType) xs ?s'))"
      by (rule fold_reach) (simp add: typeStep_reach)
    ultimately show ?thesis
      using fx reach_settled by simp
  qed
qed

lemma relocate_conflict_reach:
  assumes "fs_exists (disk s) [d, f]"
  shows "reach UNIV {} (disk s) (disk (relocate d f s))"
proof -
  obtain made s1 where m: "(if fs_exists (disk s) [d] then (Created, s)
                            else create_directory [d] s) = (made, s1)"
    by fastforce
  then have r1: "reach UNIV {} (disk s) (disk s1)"
    by (auto split: if_splits intro: reach_same create_directory_reach)
  then have "map_of (disk s1) [d, f] = map_of (disk s) [d, f]"
    using assms reach_persists [OF r1, of "[d, f]"] by (auto simp: fs_exists_def)
  with assms have "fs_exists (disk s1) [d, f]"
    by (simp add: fs_exists_def)
  with r1 show ?thesis
    unfolding relocate_def Let_def m prod.case by simp
qed

lemma typeStep_settled:
  assumes "settled dangerous extToType (disk s) f"
  shows "moved (typeStep dangerous extToType f s) = moved s
       \<and> reach UNIV {} (disk s) (disk (typeStep dangerous extToType f s))"
proof (cases "\<not> is_regular_file (disk s) [f] \<or> toLower (extension f) \<in> set dangerous")
  case True
  then show ?thesis
    by (auto simp: typeStep_def reach_same)
next
  case False
  with assms have ex: "fs_exists (disk s) [lookupType extToType (toLower (extension f)), f]"
    by (simp add: settled_def)
  from False have "fs_exists (disk s) [f]"
    by (auto simp: is_regular_file_def fs_exists_def split: option.splits)
  with False relocate_conflict [OF ex this] relocate_conflict_reach [OF ex] show ?thesis
    by (simp add: typeStep_def Let_def)
qed

lemma fold_typeStep_settled:
  assumes "\<And>f. settled dangerous extToType (disk s) f"
  shows "moved (fold (typeStep dangerous extToType) names s) = moved s"
  using assms
proof (induction names arbitrary: s)
  case Nil
  then show ?case by simp
next
  case (Cons x xs)
  let ?s' = "typeStep dangerous extToType x s"
  from typeStep_settled [OF Cons.prems, of x]
  have m: "moved ?s' = moved s" and r: "reach UNIV {} (disk s) (disk ?s')"
    by simp_all
  have "settled dangerous extToType (disk ?s') f" for f
    using r Cons.prems by (rule reach_settled)
  then have "moved (fold (typeStep dangerous extToType) xs ?s') = moved ?s'"
    by (rule Cons.IH)
  with m show ?case by simp
qed

lemma settled_cong:
  "map_of fs = map_of fs' \<Longrightarrow> settled dangerous extToType fs f = settled dangerous extToType fs' f"
  by (simp add: settled_def is_regular_file_def fs_exists_def)

lemma quiet_run_then_no_move:
  assumes "no_failure_reported (cleanFilesByType dangerous fileTypes fs fl)"
    and "map_of fs2 = map_of (disk (cleanFilesByType dangerous fileTypes fs fl))"
  shows "moved (cleanFilesByType dangerous fileTypes fs2 fl2) = 0"
proof (cases "\<not> fs_exists fs [] \<or> \<not> is_directory fs []")
  case True
  then have "disk (cleanFilesByType dangerous fileTypes fs fl) = fs"
    by (simp add: cleanFilesByType_def Let_def start_def)
  with assms(2) True have "\<not> fs_exists fs2 [] \<or> \<not> is_directory fs2 []"
    by (simp add: fs_exists_def is_directory_def)
  then show ?thesis
    by (simp add: cleanFilesByType_def Let_def start_def)
next
  case False
  let ?m = "buildExtToType fileTypes"
  let ?s1 = "fold (typeStep dangerous ?m) (directory_iterator fs) (start fs fl)"
  from False have run: "cleanFilesByType dangerous fileTypes fs fl = report ?s1"
    by (simp add: cleanFilesByType_def Let_def)
  with assms(1) have q: "no_failure_reported ?s1"
    by (simp add: no_failure_reported_def report_def)
  have r: "reach UNIV UNIV fs (disk ?s1)"
    using fold_reach [of "directory_iterator fs" UNIV UNIV "typeStep dangerous ?m" "start fs fl"]
    by (simp add: typeStep_reach start_def)
  have all: "settled dangerous ?m (disk ?s1) f" for f
  proof (cases "is_regular_file (disk ?s1) [f]")
    case False
    then show ?thesis by (simp add: settled_def)
  next
    case True
    then obtain c where "map_of (disk ?s1) [f] = Some (regular c)"
      by (auto simp: is_regular_file_def split: option.splits file_type.splits)
    with reach_new_entries [OF r] have "map_of fs [f] = Some (regular c)"
      by blast
    then have "f \<in> set (directory_iterator fs)"
      by (simp add: in_directory_iterator)
    with q show ?thesis
      by (rule fold_typeStep_settles)
  qed
  from assms(2) run have same: "map_of fs2 = map_of (disk ?s1)"
    by (simp add: report_disk)
  have "settled dangerous ?m (disk (start fs2 fl2)) f" for f
    using all [of f] settled_cong [OF same, of dangerous ?m f] by (simp add: start_def)
  then have "moved (fold (typeStep dangerous ?m) names (start fs2 fl2)) = moved (start fs2 fl2)"
    for names
    by (rule fold_typeStep_settled)
  then show ?thesis
    by (simp add: cleanFilesByType_def Let_def report_def start_def)
qed

section \<open>Plain trees\<close>

text \<open>
  On a tree without symbolic link and without locked folder every walk arrives where
  the path says, so no status query throws, and the program on every tree does what
  the program on plain trees does.
\<close>

lemma plain_entry:
  assumes "plain fs" and "map_of fs p = Some t"
  shows "t \<noteq> locked \<and> (\<forall>q. t \<noteq> symlink q)"
proof -
  from assms(2) have "(p, t) \<in> set fs"
    by (rule map_of_SomeD)
  with assms(1) show ?thesis
    by (auto simp: plain_def list_all_iff split: file_type.splits)
qed

lemma resolve_plain: "plain fs \<Longrightarrow> resolve fs n cur cs = Some (cur @ cs)"
proof (induction cs arbitrary: cur)
  case Nil
  then show ?case by simp
next
  case (Cons c cs)
  have l: "map_of fs cur \<noteq> Some locked"
    using plain_entry [OF Cons.prems, of cur locked] by auto
  have "resolve fs n cur (c # cs) = resolve fs n (cur @ [c]) cs"
  proof (cases "map_of fs (cur @ [c])")
    case None
    with l show ?thesis by simp
  next
    case (Some t)
    with plain_entry [OF Cons.prems Some] l show ?thesis
      by (cases t) simp_all
  qed
  with Cons.IH [OF Cons.prems, of "cur @ [c]"] show ?case
    by simp
qed

lemma fs_exists_plain: "plain fs \<Longrightarrow> fs_exists' fs p = Some (fs_exists fs p)"
  using resolve_plain [of fs max_links "[]" p] by (simp add: fs_exists'_def fs_exists_def)

lemma is_regular_file_plain:
  assumes "plain fs"
  shows "is_regular_file' fs p = Some (is_regular_file fs p)"
proof (cases "map_of fs p")
  case None
  then show ?thesis by (simp add: is_regular_file'_def)
next
  case (Some t)
  with plain_entry [OF assms Some] show ?thesis
    by (cases t) (simp_all add: is_regular_file'_def)
qed

lemma create_directory_plain:
  assumes "plain (disk s)"
  shows "create_directory' [d] s = create_directory [d] s"
proof -
  have r: "resolve (disk s) max_links [] xs = Some xs" for xs
    using resolve_plain [OF assms, of max_links "[]" xs] by simp
  have l: "map_of (disk s) xs \<noteq> Some locked" for xs
    using plain_entry [OF assms, of xs locked] by auto
  show ?thesis
    unfolding create_directory'_def create_directory_def r
    by (auto simp: l is_directory_def fs_exists_def)
qed

lemma rename_plain:
  assumes "plain (disk s)"
  shows "rename' [f] [d, f] s = rename [f] [d, f] s"
proof -
  have r: "resolve (disk s) max_links [] xs = Some xs" for xs
    using resolve_plain [OF assms, of max_links "[]" xs] by simp
  have l: "map_of (disk s) xs \<noteq> Some locked" for xs
    using plain_entry [OF assms, of xs locked] by auto
  show ?thesis
    unfolding rename'_def rename_def r
    by (auto simp: l is_directory_def split: option.splits)
qed

lemma reach_plain: "reach D F fs fs' \<Longrightarrow> plain fs \<Longrightarrow> plain fs'"
proof (induction rule: reach.induct)
  case reach_same
  then show ?case by simp
next
  case (reach_mkdir fs1 d)
  then show ?case by (simp add: plain_def)
next
  case (reach_move fs1 d f t)
  then have p: "plain fs1" by simp
  from plain_entry [OF p reach_move.hyps(4)] have "t \<noteq> locked \<and> (\<forall>q. t \<noteq> symlink q)" .
  moreover have "plain (AList.delete [f] fs1)"
    using p by (auto simp: plain_def list_all_iff AList.delete_eq)
  ultimately show ?case
    by (cases t) (simp_all add: plain_def)
qed

lemma relocate_plain:
  assumes "plain (disk s)"
  shows "relocate' type f s = Returned (relocate type f s)"
proof -
  obtain made s1 where m: "(if fs_exists (disk s) [type] then (Created, s)
                            else create_directory [type] s) = (made, s1)"
    by fastforce
  then have "reach UNIV UNIV (disk s) (disk s1)"
    by (auto split: if_splits intro: reach_same create_directory_reach)
  then have p1: "plain (disk s1)"
    using assms by (rule reach_plain)
  have m': "(if fs_exists (disk s) [type] then (Created, s)
             else create_directory' [type] s) = (made, s1)"
    unfolding create_directory_plain [OF assms] by (rule m)
  obtain ec s2 where r: "rename [f] [type, f] s1 = (ec, s2)"
    by fastforce
  then have r': "rename' [f] [type, f] s1 = (ec, s2)"
    by (simp add: rename_plain [OF p1])
  show ?thesis
    unfolding relocate'_def relocate_def Let_def fs_exists_plain [OF assms] option.case m m'
      prod.case fs_exists_plain [OF p1] r r'
    by simp
qed

lemma typeStep_plain:
  assumes "plain (disk s)"
  shows "typeStep' dangerous extToType f s = Returned (typeStep dangerous extToType f s)"
  by (simp add: typeStep'_def typeStep_def is_regular_file_plain [OF assms]
        relocate_plain [OF assms] Let_def)

lemma loop_typeStep_plain:
  "plain (disk s) \<Longrightarrow>
   loop (typeStep' dangerous extToType) names s
     = Returned (fold (typeStep dangerous extToType) names s)"
proof (induction names arbitrary: s)
  case Nil
  then show ?case by simp
next
  case (Cons x xs)
  have "reach UNIV UNIV (disk s) (disk (typeStep dangerous extToType x s))"
    by (rule typeStep_reach) simp
  then have "plain (disk (typeStep dangerous extToType x s))"
    using Cons.prems by (rule reach_plain)
  then show ?case
    by (simp add: typeStep_plain [OF Cons.prems] Cons.IH)
qed

lemma cleanFilesByType_plain:
  assumes "plain fs"
  shows "cleanFilesByType' dangerous fileTypes fs fl
     = Returned (cleanFilesByType dangerous fileTypes fs fl)"
proof -
  have l: "map_of fs [] \<noteq> Some locked"
    using plain_entry [OF assms, of "[]" locked] by auto
  have p: "plain (disk (start fs fl))"
    using assms by (simp add: start_def)
  show ?thesis
    unfolding cleanFilesByType'_def cleanFilesByType_def Let_def loop_typeStep_plain [OF p]
    by (auto simp: l fs_exists_def is_directory_def)
qed

section \<open>A second by-type run\<close>

text \<open>
  C7, as amended. Take a directory that holds no symbolic link and in which every
  folder can be read and searched. When a by-type run on it returns and has reported no failure to
  create a folder and no failure to move a file, a second by-type run with the same
  tables on the directory as the first run left it (whatever the order of its
  iteration, and whichever of its calls fail) returns and moves no file: every
  regular file the first run left in the directory is dangerous or has an entry of
  its name in the folder of its category.
\<close>

theorem second_run_moves_nothing:
  assumes "plain fs"
    and "cleanFilesByType' dangerous fileTypes fs fl = Returned r1"
    and "no_failure_reported r1"
    and "plain fs2"
    and "map_of fs2 = map_of (disk r1)"
  shows "cleanFilesByType' dangerous fileTypes fs2 fl2
           = Returned (final (cleanFilesByType' dangerous fileTypes fs2 fl2))
       \<and> moved (final (cleanFilesByType' dangerous fileTypes fs2 fl2)) = 0"
proof -
  from assms(1,2) have r1: "r1 = cleanFilesByType dangerous fileTypes fs fl"
    by (simp add: cleanFilesByType_plain)
  have "moved (cleanFilesByType dangerous fileTypes fs2 fl2) = 0"
    using assms(3,5) unfolding r1 by (rule quiet_run_then_no_move)
  then show ?thesis
    by (simp add: cleanFilesByType_plain [OF assms(4)])
qed

theorem second_run_moves_nothing_witness:
  "plain [([], directory), ([''report.exe''], regular 1), ([''report.txt''], regular 2)]
   \<and> cleanFilesByType' DEFAULT_DANGEROUS_EXTS [(''Documents'', [''.txt''])]
        [([], directory), ([''report.exe''], regular 1), ([''report.txt''], regular 2)] []
      = Returned \<lparr>disk = [([], directory), ([''report.exe''], regular 1),
            ([''Documents''], directory), ([''Documents'', ''report.txt''], regular 2)],
          faults = [], moved = 1, skipped = 1, skippedFiles = [''report.exe''],
          console = [SkippedDangerous ''report.exe'', Report 1 1 [''report.exe'']]\<rparr>
   \<and> moved (final (cleanFilesByType' DEFAULT_DANGEROUS_EXTS [(''Documents'', [''.txt''])]
        [([], directory), ([''report.exe''], regular 1),
         ([''Documents''], directory), ([''Documents'', ''report.txt''], regular 2)] [])) = 0"
proof -
  let ?fs = "[([], directory), ([''report.exe''], regular 1), ([''report.txt''], regular 2)]"
  let ?fs2 = "[([], directory), ([''report.exe''], regular 1),
            ([''Documents''], directory), ([''Documents'', ''report.txt''], regular 2)]"
  let ?r1 = "\<lparr>disk = ?fs2,
          faults = [], moved = 1, skipped = 1, skippedFiles = [''report.exe''],
          console = [SkippedDangerous ''report.exe'', Report 1 1 [''report.exe'']]\<rparr>"
  have h1: "plain ?fs"
    by code_simp
  have h2: "cleanFilesByType' DEFAULT_DANGEROUS_EXTS [(''Documents'', [''.txt''])] ?fs []
      = Returned ?r1"
    by code_simp
  have h3: "no_failure_reported ?r1"
    by code_simp
  have h4: "plain ?fs2"
    by code_simp
  have h5: "map_of ?fs2 = map_of (disk ?r1)"
    by simp
  from second_run_moves_nothing [OF h1 h2 h3 h4 h5, of "[]"] h1 h2 show ?thesis
    by simp
qed

text \<open>
  C7 as stated, that the second of two by-type runs in succession always moves zero
  files, fails. With the built-in tables and no failing call, in a directory that
  holds \<open>a.jpg\<close> and a regular file named \<open>Images\<close>, the first run cannot create the
  folder \<open>Images\<close>, reports the failed move of \<open>a.jpg\<close> and moves \<open>Images\<close> to
  \<open>Other\<close>; the second run then creates \<open>Images\<close> and moves \<open>a.jpg\<close>. In a directory
  that holds \<open>a.txt\<close>, \<open>b.txt\<close> and a link \<open>Documents/a.txt\<close> to \<open>b.txt\<close>, the first run
  skips \<open>a.txt\<close> without reporting a failure and moves \<open>b.txt\<close>; the link now leads
  nowhere and the second run moves \<open>a.txt\<close> in its place.
\<close>

theorem second_run_moves_a_file:
  "cleanFilesByType' DEFAULT_DANGEROUS_EXTS fallbackFileTypes
       [([], directory), ([''a.jpg''], regular 1), ([''Images''], regular 2)] []
     = Returned \<lparr>disk = [([], directory), ([''a.jpg''], regular 1), ([''Other''], directory),
           ([''Other'', ''Images''], regular 2)],
         faults = [], moved = 1, skipped = 1, skippedFiles = [''a.jpg''],
         console = [FailedToMove [''a.jpg''] [''Images'', ''a.jpg''], Report 1 1 [''a.jpg'']]\<rparr>
   \<and> cleanFilesByType' DEFAULT_DANGEROUS_EXTS fallbackFileTypes
       [([], directory), ([''a.jpg''], regular 1), ([''Other''], directory),
        ([''Other'', ''Images''], regular 2)] []
     = Returned \<lparr>disk = [([], directory), ([''Other''], directory),
           ([''Other'', ''Images''], regular 2), ([''Images''], directory),
           ([''Images'', ''a.jpg''], regular 1)],
         faults = [], moved = 1, skipped = 0, skippedFiles = [], console = [Report 1 0 []]\<rparr>
   \<and> cleanFilesByType' DEFAULT_DANGEROUS_EXTS fallbackFileTypes
       [([], directory), ([''a.txt''], regular 1), ([''b.txt''], regular 2),
        ([''Documents''], directory), ([''Documents'', ''a.txt''], symlink [''b.txt''])] []
     = Returned \<lparr>disk = [([], directory), ([''a.txt''], regular 1), ([''Documents''], directory),
           ([''Documents'', ''a.txt''], symlink [''b.txt'']),
           ([''Documents'', ''b.txt''], regular 2)],
         faults = [], moved = 1, skipped = 1, skippedFiles = [''a.txt''],
         console = [Report 1 1 [''a.txt'']]\<rparr>
   \<and> cleanFilesByType' DEFAULT_DANGEROUS_EXTS fallbackFileTypes
       [([], directory), ([''a.txt''], regular 1), ([''Documents''], directory),
        ([''Documents'', ''a.txt''], symlink [''b.txt'']),
        ([''Documents'', ''b.txt''], regular 2)] []
     = Returned \<lparr>disk = [([], directory), ([''Documents''], directory),
           ([''Documents'', ''b.txt''], regular 2), ([''Documents'', ''a.txt''], regular 1)],
         faults = [], moved = 1, skipped = 0, skippedFiles = [], console = [Report 1 0 []]\<rparr>"
  by code_simp

section \<open>A link at the destination\<close>

text \<open>
  C2. The claim: in the by-type operation and in both branches of the by-name
  operation, a move whose destination name is taken in the destination folder is
  skipped, and nothing that is in the destination folder is ever overwritten. The
  guard of the three move loops is \<open>fs::exists(dest)\<close>, which follows symbolic links:
  for a link whose target is absent it answers that nothing is there, the move is
  attempted, and \<open>fs::rename\<close> puts the file in the place of the link. A by-type run
  with the built-in tables on \<open>a.txt\<close> next to a folder \<open>Documents\<close> that holds such a
  link named \<open>a.txt\<close> reports one moved file and the link is gone; so does the loop
  body of the explicit-name branch for the name \<open>a\<close>, and an auto-detect run on
  \<open>trip_one.jpg\<close> and \<open>trip_two.jpg\<close> next to a folder \<open>trip\<close> with such a link named
  \<open>trip_one.jpg\<close>.
\<close>

theorem dangling_link_is_replaced:
  "cleanFilesByType' DEFAULT_DANGEROUS_EXTS fallbackFileTypes
       [([], directory), ([''a.txt''], regular 1), ([''Documents''], directory),
        ([''Documents'', ''a.txt''], symlink [''gone.txt''])] []
     = Returned \<lparr>disk = [([], directory), ([''Documents''], directory),
           ([''Documents'', ''a.txt''], regular 1)],
         faults = [], moved = 1, skipped = 0, skippedFiles = [], console = [Report 1 0 []]\<rparr>
   \<and> moveMatch' [''a''] ''a.txt''
       (start [([], directory), ([''a.txt''], regular 1), ([''a''], directory),
          ([''a'', ''a.txt''], symlink [''gone.txt''])] [])
     = Returned \<lparr>disk = [([], directory), ([''a''], directory),
           ([''a'', ''a.txt''], regular 1)],
         faults = [], moved = 1, skipped = 0, skippedFiles = [], console = []\<rparr>
   \<and> autoDetect' insertion_sort []
       (start [([], directory), ([''trip_one.jpg''], regular 1),
          ([''trip_two.jpg''], regular 2), ([''trip''], directory),
          ([''trip'', ''trip_one.jpg''], symlink [''gone.jpg''])] [])
     = Returned \<lparr>disk = [([], directory), ([''trip''], directory),
           ([''trip'', ''trip_one.jpg''], regular 1),
           ([''trip'', ''trip_two.jpg''], regular 2)],
         faults = [], moved = 2, skipped = 0, skippedFiles = [],
         console = [SkippingNonRegular ''trip'', Report 2 0 []]\<rparr>"
  by code_simp

section \<open>A status query that fails\<close>

text \<open>
  C8. The claim: in auto-detect mode a failure to create the folder of a ranked token
  is logged, no file is moved for that token and the run goes on with the next ranked
  token; no failure of a filesystem operation is raised out of the operation. The
  mutating calls take an \<open>error_code\<close>, the status queries do not: in a directory
  without search permission that holds \<open>trip_photo1.jpg\<close> and \<open>trip_photo2.jpg\<close> the
  query \<open>fs::exists(destDir)\<close> for the token \<open>trip\<close> throws, and the exception leaves
  the auto-detect run before any summary is printed. The by-type run on such a
  directory ends the same way, after it has skipped a dangerous file. The first half
  of the claim is what the code does: when \<open>trip\<close> is the name of a link that leads
  nowhere, the folder \<open>trip\<close> cannot be created, the failure is logged, both
  \<open>trip\<close> files stay, and the run goes on to move the two \<open>work\<close> files and prints
  its summary.
\<close>

theorem failing_status_query_is_thrown:
  "autoDetect' insertion_sort []
       (start [([], locked), ([''trip_photo1.jpg''], regular 1),
          ([''trip_photo2.jpg''], regular 2)] [])
     = Threw (start [([], locked), ([''trip_photo1.jpg''], regular 1),
          ([''trip_photo2.jpg''], regular 2)] [])
   \<and> cleanFilesByType' DEFAULT_DANGEROUS_EXTS fallbackFileTypes
       [([], locked), ([''report.exe''], regular 1), ([''report.txt''], regular 2)] []
     = Threw \<lparr>disk = [([], locked), ([''report.exe''], regular 1),
           ([''report.txt''], regular 2)],
         faults = [], moved = 0, skipped = 1, skippedFiles = [''report.exe''],
         console = [SkippedDangerous ''report.exe'']\<rparr>
   \<and> autoDetect' insertion_sort []
       (start [([], directory), ([''trip_one.jpg''], regular 1), ([''trip_two.jpg''], regular 2),
          ([''work_aaa1.txt''], regular 3), ([''work_bbb2.txt''], regular 4),
          ([''trip''], symlink [''gone''])] [])
     = Returned \<lparr>disk = [([], directory), ([''trip_one.jpg''], regular 1),
           ([''trip_two.jpg''], regular 2), ([''trip''], symlink [''gone'']),
           ([''work''], directory), ([''work'', ''work_aaa1.txt''], regular 3),
           ([''work'', ''work_bbb2.txt''], regular 4)],
         faults = [], moved = 2, skipped = 0, skippedFiles = [],
         console = [SkippingNonRegular ''trip'', FailedToCreate [''trip''],
           Report 2 0 []]\<rparr>"
  by code_simp

end
